theory Spec2Isabelle
  imports Complex_Main
begin

section \<open>The fluency annotator of app.py\<close>

text \<open>
  The embedding follows \<open>analyze_fluency\<close> of \<open>src/app.py\<close>. Its input is the value of
  \<open>result["segments"]\<close>, the list of segments that the transcription returns; loading the
  model and transcribing the audio file are outside the embedding.

  The number type of the timestamps is a parameter \<open>'f\<close> of the data, and the pass
  over the words takes the arithmetic of that type as a parameter: its subtraction, its
  comparison and its value of the literal \<open>0.7\<close>. Two arithmetics are given. The one
  of the code is that of Python's floats, binary64 with rounding to nearest, ties to
  even. The other is that of the reals, an idealisation without rounding, and the summary
  is embedded over it. Python integers are of type \<open>int\<close>.
  A character is a code point below 256, and a string is a list of them; text with
  code points beyond that range is outside the model.
\<close>

subsection \<open>Strings: lower and strip\<close>

text \<open>
  \<open>str.strip()\<close> without an argument removes leading and trailing white space. Below
  256 the white-space code points are 9 to 13, 28 to 32, 133 and 160.
\<close>

definition isspace :: "char \<Rightarrow> bool" where
  "isspace c =
     (let n = (of_char c :: nat)
      in (9 \<le> n \<and> n \<le> 13) \<or> (28 \<le> n \<and> n \<le> 32) \<or> n = 133 \<or> n = 160)"

text \<open>
  \<open>str.lower()\<close> maps each upper-case letter to its lower-case one. Below 256 the
  upper-case letters are 65 to 90 and 192 to 222 without 215 (the multiplication sign),
  and the lower-case letter is 32 further.
\<close>

definition is_upper :: "char \<Rightarrow> bool" where
  "is_upper c =
     (let n = (of_char c :: nat)
      in (65 \<le> n \<and> n \<le> 90) \<or> (192 \<le> n \<and> n \<le> 214) \<or> (216 \<le> n \<and> n \<le> 222))"

definition lower_char :: "char \<Rightarrow> char" where
  "lower_char c = (if is_upper c then char_of ((of_char c :: nat) + 32) else c)"

definition lower :: "string \<Rightarrow> string" where
  "lower s = map lower_char s"

definition strip :: "string \<Rightarrow> string" where
  "strip s = rev (dropWhile isspace (rev (dropWhile isspace s)))"

subsection \<open>Data\<close>

text \<open>
  A word entry of the transcription is a dictionary with the keys \<open>"word"\<close>,
  \<open>"start"\<close> and \<open>"end"\<close>; the code reads all three without a test, and the record
  type has all three. A segment has the key \<open>"end"\<close> and may lack the key
  \<open>"words"\<close>, which the code tests for: the field \<open>words\<close> is optional. The key
  \<open>"end"\<close> is the field \<open>w_end\<close> of a word and \<open>seg_end\<close> of a segment.
\<close>

record 'f word_rec =
  word :: string
  start :: 'f
  w_end :: 'f

record 'f segment =
  words :: "'f word_rec list option"
  seg_end :: 'f

text \<open>
  The code appends four kinds of entries to \<open>transcript_log\<close>: three formatted
  strings and the word itself. An event is the \<open>append\<close> statement that produced the
  entry together with the value put into it: the normalized word, or the pause as it is
  before the format rounds it to two decimals. The text of the strings is not modelled.
\<close>

datatype 'f event =
    FillerDetected string
  | RepetitionDetected string
  | PauseDetected 'f
  | PlainWord string

text \<open>The dictionary \<open>metrics\<close>, one field for each of its keys.\<close>

record metrics =
  repetitions :: int
  fillers :: int
  avg_pause :: real
  speech_rate :: real
  total_words :: int

datatype py_error = KeyError | IndexError | ZeroDivisionError

subsection \<open>The filler words\<close>

definition FILLERS :: "string set" where
  "FILLERS = {''um'', ''uh'', ''erm'', ''hmm'', ''you know'', ''like''}"

subsection \<open>Collecting the words of the segments\<close>

text \<open>\<open>seg["words"]\<close> raises \<open>KeyError\<close> when the key is absent.\<close>

definition getitem_words :: "'f segment \<Rightarrow> py_error + 'f word_rec list" where
  "getitem_words seg = (case words seg of None \<Rightarrow> Inl KeyError | Some ws \<Rightarrow> Inr ws)"

text \<open>
  The first loop: \<open>for seg in result["segments"]: if "words" in seg:
  words.extend(seg["words"])\<close>, with the list built so far as the first argument.
\<close>

fun collect_words ::
  "'f word_rec list \<Rightarrow> 'f segment list \<Rightarrow> py_error + 'f word_rec list" where
  "collect_words acc [] = Inr acc"
| "collect_words acc (seg # segs) =
     (if words seg \<noteq> None
      then (case getitem_words seg of
              Inl e \<Rightarrow> Inl e
            | Inr ws \<Rightarrow> collect_words (acc @ ws) segs)
      else collect_words acc segs)"

subsection \<open>The pass over the words\<close>

text \<open>
  The variables that the second loop updates, under their names in the code;
  \<open>rep_count\<close> is the variable \<open>repetitions\<close>, whose name the metrics have taken.
\<close>

record 'f loop_vars =
  rep_count :: int
  filler_count :: int
  pauses :: "'f list"
  prev_word :: "string option"
  prev_end :: "'f option"
  transcript_log :: "'f event list"

definition init_vars :: "'f loop_vars" where
  "init_vars = \<lparr>rep_count = 0, filler_count = 0, pauses = [], prev_word = None,
                 prev_end = None, transcript_log = []\<rparr>"

text \<open>
  \<open>if prev_word and ...\<close> tests the truth value of \<open>prev_word\<close>: \<open>None\<close> and the
  empty string are both false.
\<close>

definition truthy :: "string option \<Rightarrow> bool" where
  "truthy p = (case p of None \<Rightarrow> False | Some s \<Rightarrow> s \<noteq> [])"

text \<open>\<open>if word in FILLERS\<close>: count the filler and log it.\<close>

definition filler_step :: "string \<Rightarrow> 'f loop_vars \<Rightarrow> 'f loop_vars" where
  "filler_step wd s =
     (if wd \<in> FILLERS
      then s\<lparr>filler_count := filler_count s + 1,
             transcript_log := transcript_log s @ [FillerDetected wd]\<rparr>
      else s)"

text \<open>\<open>if prev_word and word == prev_word\<close>: count the repetition and log it.\<close>

definition repetition_step :: "string \<Rightarrow> 'f loop_vars \<Rightarrow> 'f loop_vars" where
  "repetition_step wd s =
     (if truthy (prev_word s) \<and> Some wd = prev_word s
      then s\<lparr>rep_count := rep_count s + 1,
             transcript_log := transcript_log s @ [RepetitionDetected wd]\<rparr>
      else s)"

text \<open>
  The arithmetic of the number type, as far as the pass uses it: \<open>start - prev_end\<close>,
  \<open>pause > 0.7\<close> and the value that the literal \<open>0.7\<close> denotes.
\<close>

record 'f arith =
  f_sub :: "'f \<Rightarrow> 'f \<Rightarrow> 'f"
  f_gt :: "'f \<Rightarrow> 'f \<Rightarrow> bool"
  f_threshold :: 'f

text \<open>
  \<open>if prev_end is not None\<close>: the pause is the start of the word minus the end of the
  word before; one greater than 0.7 is kept and logged.
\<close>

definition pause_step_in :: "'f arith \<Rightarrow> 'f \<Rightarrow> 'f loop_vars \<Rightarrow> 'f loop_vars" where
  "pause_step_in ar st s =
     (case prev_end s of
        None \<Rightarrow> s
      | Some pe \<Rightarrow>
          (let pause = f_sub ar st pe
           in if f_gt ar pause (f_threshold ar)
              then s\<lparr>pauses := pauses s @ [pause],
                     transcript_log := transcript_log s @ [PauseDetected pause]\<rparr>
              else s))"

text \<open>
  The body of \<open>for w in words\<close>: the three tests in the order of the code, then the
  word itself is logged and remembered with its end.
\<close>

definition loop_body_in :: "'f arith \<Rightarrow> 'f loop_vars \<Rightarrow> 'f word_rec \<Rightarrow> 'f loop_vars" where
  "loop_body_in ar s w =
     (let wd = strip (lower (word w));
          s3 = pause_step_in ar (start w) (repetition_step wd (filler_step wd s))
      in s3\<lparr>transcript_log := transcript_log s3 @ [PlainWord wd],
            prev_word := Some wd,
            prev_end := Some (w_end w)\<rparr>)"

definition run_loop_in :: "'f arith \<Rightarrow> 'f loop_vars \<Rightarrow> 'f word_rec list \<Rightarrow> 'f loop_vars" where
  "run_loop_in ar s ws = foldl (loop_body_in ar) s ws"

subsection \<open>The arithmetic of Python's floats\<close>

text \<open>
  A Python float is an IEEE 754 binary64 number: a finite one, given here by its value,
  an infinity, given by its sign (true for the negative one), or a NaN. The two zeros are
  one value. The finite values are the multiples \<open>n * 2 ^ k\<close> with \<open>n\<close> below
  \<open>2 ^ 53\<close> and \<open>k\<close> from -1074 to 971.
\<close>

datatype binary64 = Finite rat | Infinity bool | NaN

text \<open>The number of binary digits of a positive integer.\<close>

function bit_length :: "int \<Rightarrow> int" where
  "bit_length n = (if n \<le> 0 then 0 else 1 + bit_length (n div 2))"
  by pat_completeness auto
termination
  by (relation "measure nat") auto

declare bit_length.simps [simp del]

text \<open>
  The binary exponent of a rational \<open>x\<close> other than 0: the \<open>e\<close> with
  \<open>2 ^ e \<le> \<bar>x\<bar> < 2 ^ (e + 1)\<close>. The digits of numerator and denominator give it
  up to one.
\<close>

definition exponent_of :: "rat \<Rightarrow> int" where
  "exponent_of x =
     (let (p, q) = quotient_of \<bar>x\<bar>;
          d = bit_length p - bit_length q
      in if 2 powi d \<le> \<bar>x\<bar> then d else d - 1)"

text \<open>The nearest integer, the even one of two that are equally near.\<close>

definition round_half_even :: "rat \<Rightarrow> int" where
  "round_half_even x =
     (let n = \<lfloor>x\<rfloor>; r = x - of_int n
      in if r < 1 / 2 then n else if 1 / 2 < r then n + 1 else if even n then n else n + 1)"

text \<open>
  Rounding to nearest, ties to even: the result of every operation and the value of a
  decimal literal. The unit in the last place is \<open>2 ^ k\<close>, with 53 digits kept and
  \<open>k\<close> not below -1074; a result of exponent 1024 or more is an infinity.
\<close>

definition round64 :: "rat \<Rightarrow> binary64" where
  "round64 x =
     (if x = 0 then Finite 0
      else let k = max (exponent_of x) (- 1022) - 52;
               y = of_int (round_half_even (\<bar>x\<bar> / 2 powi k)) * 2 powi k
           in if 1024 \<le> exponent_of y then Infinity (x < 0)
              else Finite (if x < 0 then - y else y))"

text \<open>\<open>a - b\<close> on floats.\<close>

fun sub64 :: "binary64 \<Rightarrow> binary64 \<Rightarrow> binary64" where
  "sub64 NaN _ = NaN"
| "sub64 _ NaN = NaN"
| "sub64 (Infinity s) (Infinity t) = (if s = t then NaN else Infinity s)"
| "sub64 (Infinity s) (Finite _) = Infinity s"
| "sub64 (Finite _) (Infinity t) = Infinity (\<not> t)"
| "sub64 (Finite x) (Finite y) = round64 (x - y)"



subsection \<open>The pass over the reals\<close>

text \<open>The arithmetic of the reals: exact subtraction, and 0.7 is seven tenths.\<close>

definition real_arith :: "real arith" where
  "real_arith = \<lparr>f_sub = (\<lambda>a b. a - b), f_gt = (\<lambda>a b. a > b), f_threshold = 7 / 10\<rparr>"

definition loop_body :: "real loop_vars \<Rightarrow> real word_rec \<Rightarrow> real loop_vars" where
  "loop_body s w = loop_body_in real_arith s w"

definition run_loop :: "real loop_vars \<Rightarrow> real word_rec list \<Rightarrow> real loop_vars" where
  "run_loop s ws = foldl loop_body s ws"

subsection \<open>The summary\<close>

text \<open>\<open>xs[-1]\<close> raises \<open>IndexError\<close> on the empty list.\<close>

definition getitem_last :: "'a list \<Rightarrow> py_error + 'a" where
  "getitem_last xs = (if xs = [] then Inl IndexError else Inr (last xs))"

text \<open>\<open>a / b\<close> raises \<open>ZeroDivisionError\<close> when \<open>b\<close> is zero.\<close>

definition truediv :: "real \<Rightarrow> real \<Rightarrow> py_error + real" where
  "truediv a b = (if b = 0 then Inl ZeroDivisionError else Inr (a / b))"

text \<open>\<open>result["segments"][-1]["end"] if result["segments"] else 0\<close>\<close>

definition get_duration :: "real segment list \<Rightarrow> py_error + real" where
  "get_duration segments =
     (if segments \<noteq> []
      then (case getitem_last segments of Inl e \<Rightarrow> Inl e | Inr sg \<Rightarrow> Inr (seg_end sg))
      else Inr 0)"

text \<open>\<open>total_words / duration if duration > 0 else 0\<close>\<close>

definition get_speech_rate :: "int \<Rightarrow> real \<Rightarrow> py_error + real" where
  "get_speech_rate n duration =
     (if duration > 0 then truediv (of_int n) duration else Inr 0)"

text \<open>\<open>(sum(pauses) / len(pauses)) if pauses else 0\<close>\<close>

definition get_avg_pause :: "real list \<Rightarrow> py_error + real" where
  "get_avg_pause ps =
     (if ps \<noteq> [] then truediv (sum_list ps) (of_nat (length ps)) else Inr 0)"

text \<open>
  The function, from the segments on: both loops, then the summary. It returns the log
  and the metrics, or the error that a statement raised.
\<close>

definition analyze_fluency ::
  "real segment list \<Rightarrow> py_error + (real event list \<times> metrics)" where
  "analyze_fluency segments =
     (case collect_words [] segments of
        Inl e \<Rightarrow> Inl e
      | Inr ws \<Rightarrow>
          (let s = run_loop init_vars ws;
               n = int (length ws)
           in case get_duration segments of
                Inl e \<Rightarrow> Inl e
              | Inr duration \<Rightarrow>
                  (case get_speech_rate n duration of
                     Inl e \<Rightarrow> Inl e
                   | Inr rate \<Rightarrow>
                       (case get_avg_pause (pauses s) of
                          Inl e \<Rightarrow> Inl e
                        | Inr avg \<Rightarrow>
                            Inr (transcript_log s,
                                 \<lparr>repetitions = rep_count s,
                                  fillers = filler_count s,
                                  avg_pause = avg,
                                  speech_rate = rate,
                                  total_words = n\<rparr>)))))"

section \<open>The terms of the specification\<close>

text \<open>
  The definitions of this section follow the words of the specification, not the code;
  the theorems compare the code with them.
\<close>

text \<open>The words that a segment contributes: none when it has no key \<open>"words"\<close>.\<close>

definition segment_words :: "'f segment \<Rightarrow> 'f word_rec list" where
  "segment_words seg = (case words seg of None \<Rightarrow> [] | Some ws \<Rightarrow> ws)"

text \<open>The input word sequence: the words of all segments, in order.\<close>

definition all_words :: "'f segment list \<Rightarrow> 'f word_rec list" where
  "all_words segs = concat (map segment_words segs)"

text \<open>The normalized text of a word: lower-cased, then stripped.\<close>

definition normalized :: "'f word_rec \<Rightarrow> string" where
  "normalized w = strip (lower (word w))"

text \<open>The four kinds of events.\<close>

fun is_filler :: "'f event \<Rightarrow> bool" where
  "is_filler (FillerDetected _) = True"
| "is_filler _ = False"

fun is_repetition :: "'f event \<Rightarrow> bool" where
  "is_repetition (RepetitionDetected _) = True"
| "is_repetition _ = False"

fun is_pause :: "'f event \<Rightarrow> bool" where
  "is_pause (PauseDetected _) = True"
| "is_pause _ = False"

fun is_plain :: "'f event \<Rightarrow> bool" where
  "is_plain (PlainWord _) = True"
| "is_plain _ = False"

text \<open>The durations of the pause events of a log, in order.\<close>

fun pause_values :: "'f event list \<Rightarrow> 'f list" where
  "pause_values [] = []"
| "pause_values (PauseDetected d # es) = d # pause_values es"
| "pause_values (_ # es) = pause_values es"

text \<open>
  The annotation events of one word, from what the pass remembers of the word before it:
  its normalized text \<open>pw\<close> and its end time \<open>pe\<close>, both absent at the first word.
\<close>

definition annotations ::
  "string option \<Rightarrow> real option \<Rightarrow> real word_rec \<Rightarrow> real event list" where
  "annotations pw pe w =
     (if normalized w \<in> FILLERS then [FillerDetected (normalized w)] else []) @
     (if pw = Some (normalized w) \<and> normalized w \<noteq> [] then [RepetitionDetected (normalized w)] else []) @
     (case pe of
        None \<Rightarrow> []
      | Some e \<Rightarrow> if start w - e > 7 / 10 then [PauseDetected (start w - e)] else [])"

text \<open>The events of one word after the word \<open>prev\<close>: its annotations, then the word.\<close>

definition word_block :: "real word_rec option \<Rightarrow> real word_rec \<Rightarrow> real event list" where
  "word_block prev w =
     annotations (map_option normalized prev) (map_option w_end prev) w @ [PlainWord (normalized w)]"

text \<open>The expected log of a word sequence: the blocks of its words, in order.\<close>

definition expected_log :: "real word_rec list \<Rightarrow> real event list" where
  "expected_log ws = concat (map2 word_block (None # map Some ws) ws)"

text \<open>The pairs of a word and the word after it.\<close>

definition adjacent :: "'f word_rec list \<Rightarrow> ('f word_rec \<times> 'f word_rec) list" where
  "adjacent ws = zip ws (tl ws)"

text \<open>A word repeats the one before: same normalized text, and not the empty one.\<close>

definition repeats :: "'f word_rec \<times> 'f word_rec \<Rightarrow> bool" where
  "repeats pq = (normalized (fst pq) = normalized (snd pq) \<and> normalized (snd pq) \<noteq> [])"

text \<open>The gap between a word and the word after it.\<close>

definition gap :: "real word_rec \<times> real word_rec \<Rightarrow> real" where
  "gap pq = start (snd pq) - w_end (fst pq)"

definition long_gap :: "real word_rec \<times> real word_rec \<Rightarrow> bool" where
  "long_gap pq = (gap pq > 7 / 10)"

text \<open>The duration: the end of the last segment, or 0 without segments.\<close>

definition duration_of :: "real segment list \<Rightarrow> real" where
  "duration_of segs = (if segs = [] then 0 else seg_end (last segs))"

definition rate_of :: "nat \<Rightarrow> real \<Rightarrow> real" where
  "rate_of n d = (if d > 0 then of_nat n / d else 0)"

definition mean :: "real list \<Rightarrow> real" where
  "mean ps = (if ps = [] then 0 else sum_list ps / of_nat (length ps))"

text \<open>The events of a word sequence, from what the pass remembers at its start.\<close>

fun blocks ::
  "string option \<Rightarrow> real option \<Rightarrow> real word_rec list \<Rightarrow> real event list" where
  "blocks pw pe [] = []"
| "blocks pw pe (w # ws) =
     annotations pw pe w @ PlainWord (normalized w) # blocks (Some (normalized w)) (Some (w_end w)) ws"

text \<open>A segment with the same end whose key \<open>"words"\<close> is present.\<close>

definition with_words :: "'f segment \<Rightarrow> 'f segment" where
  "with_words seg = seg\<lparr>words := Some (segment_words seg)\<rparr>"

definition has_words :: "'f segment \<Rightarrow> bool" where
  "has_words seg = (words seg \<noteq> None)"

definition zero_metrics :: metrics where
  "zero_metrics = \<lparr>repetitions = 0, fillers = 0, avg_pause = 0, speech_rate = 0,
                    total_words = 0\<rparr>"

text \<open>The log and the metrics of a list of segments, in the terms above.\<close>

definition log_of :: "real segment list \<Rightarrow> real event list" where
  "log_of segs = blocks None None (all_words segs)"

definition metrics_of :: "real segment list \<Rightarrow> metrics" where
  "metrics_of segs =
     \<lparr>repetitions = int (length (filter is_repetition (log_of segs))),
      fillers = int (length (filter is_filler (log_of segs))),
      avg_pause = mean (pause_values (log_of segs)),
      speech_rate = rate_of (length (all_words segs)) (duration_of segs),
      total_words = int (length (all_words segs))\<rparr>"

section \<open>Inputs for the examples\<close>

text \<open>The scenario of the specification: a filler, then a word after 0.9 seconds.\<close>

definition scenario :: "real segment list" where
  "scenario =
     [\<lparr>words = Some [\<lparr>word = ''um'', start = 0, w_end = 3 / 10\<rparr>,
                     \<lparr>word = ''hello'', start = 12 / 10, w_end = 15 / 10\<rparr>],
       seg_end = 15 / 10\<rparr>]"

text \<open>Three times the same word, 0.1 seconds apart.\<close>

definition the_the_the :: "real segment list" where
  "the_the_the =
     [\<lparr>words = Some [\<lparr>word = ''the'', start = 0, w_end = 3 / 10\<rparr>,
                     \<lparr>word = ''the'', start = 4 / 10, w_end = 7 / 10\<rparr>,
                     \<lparr>word = ''the'', start = 8 / 10, w_end = 11 / 10\<rparr>],
       seg_end = 11 / 10\<rparr>]"

text \<open>Two words whose normalized text is empty, 0.1 seconds apart.\<close>

definition blank_first :: "real word_rec" where
  "blank_first = \<lparr>word = '' '', start = 0, w_end = 1 / 10\<rparr>"

definition blank_second :: "real word_rec" where
  "blank_second = \<lparr>word = [], start = 2 / 10, w_end = 3 / 10\<rparr>"

definition blank_words :: "real segment list" where
  "blank_words = [\<lparr>words = Some [blank_first, blank_second], seg_end = 3 / 10\<rparr>]"


text \<open>
  Ten words in two segments that end at 5 seconds, with gaps of 1 and 2 seconds after
  the first and the second word and 0.1 seconds elsewhere.
\<close>

definition ten_words :: "real segment list" where
  "ten_words =
     [\<lparr>words = Some [\<lparr>word = ''a'', start = 0, w_end = 2 / 10\<rparr>,
                     \<lparr>word = ''b'', start = 12 / 10, w_end = 14 / 10\<rparr>,
                     \<lparr>word = ''c'', start = 34 / 10, w_end = 36 / 10\<rparr>,
                     \<lparr>word = ''d'', start = 37 / 10, w_end = 38 / 10\<rparr>,
                     \<lparr>word = ''e'', start = 39 / 10, w_end = 40 / 10\<rparr>],
       seg_end = 4\<rparr>,
      \<lparr>words = Some [\<lparr>word = ''f'', start = 41 / 10, w_end = 42 / 10\<rparr>,
                     \<lparr>word = ''g'', start = 43 / 10, w_end = 44 / 10\<rparr>,
                     \<lparr>word = ''h'', start = 45 / 10, w_end = 46 / 10\<rparr>,
                     \<lparr>word = ''i'', start = 47 / 10, w_end = 48 / 10\<rparr>,
                     \<lparr>word = ''j'', start = 49 / 10, w_end = 5\<rparr>],
       seg_end = 5\<rparr>]"

text \<open>Segments without words: one lacks the key, one has the empty list.\<close>

definition wordless :: "real segment list" where
  "wordless = [\<lparr>words = None, seg_end = 2\<rparr>, \<lparr>words = Some [], seg_end = 5\<rparr>]"

text \<open>The scenario, between two segments that lack the key \<open>"words"\<close>.\<close>

definition with_gaps :: "real segment list" where
  "with_gaps = \<lparr>words = None, seg_end = 0\<rparr> # scenario @ [\<lparr>words = None, seg_end = 4\<rparr>]"

section \<open>The code against the terms of the specification\<close>

subsection \<open>Collecting\<close>

lemma collect_words_eq: "collect_words acc segs = Inr (acc @ all_words segs)"
  by (induction segs arbitrary: acc)
     (auto simp: all_words_def segment_words_def getitem_words_def)

subsection \<open>One word\<close>

lemma loop_body_prev_word: "prev_word (loop_body s w) = Some (normalized w)"
  by (simp add: loop_body_def loop_body_in_def real_arith_def normalized_def Let_def)

lemma loop_body_prev_end: "prev_end (loop_body s w) = Some (w_end w)"
  by (simp add: loop_body_def loop_body_in_def real_arith_def Let_def)

lemma loop_body_log:
  "transcript_log (loop_body s w) =
     transcript_log s @ annotations (prev_word s) (prev_end s) w @ [PlainWord (normalized w)]"
  by (auto simp: loop_body_def loop_body_in_def real_arith_def normalized_def Let_def annotations_def filler_step_def
       repetition_step_def pause_step_in_def truthy_def split: option.splits)

lemma loop_body_rep_count:
  "rep_count (loop_body s w) =
     rep_count s + int (length (filter is_repetition (annotations (prev_word s) (prev_end s) w)))"
  by (auto simp: loop_body_def loop_body_in_def real_arith_def normalized_def Let_def annotations_def filler_step_def
       repetition_step_def pause_step_in_def truthy_def split: option.splits)

lemma loop_body_filler_count:
  "filler_count (loop_body s w) =
     filler_count s + int (length (filter is_filler (annotations (prev_word s) (prev_end s) w)))"
  by (auto simp: loop_body_def loop_body_in_def real_arith_def normalized_def Let_def annotations_def filler_step_def
       repetition_step_def pause_step_in_def truthy_def split: option.splits)

lemma loop_body_pauses:
  "pauses (loop_body s w) =
     pauses s @ pause_values (annotations (prev_word s) (prev_end s) w)"
  by (auto simp: loop_body_def loop_body_in_def real_arith_def normalized_def Let_def annotations_def filler_step_def
       repetition_step_def pause_step_in_def truthy_def split: option.splits)

subsection \<open>The whole pass\<close>

lemma run_loop_Nil: "run_loop s [] = s"
  by (simp add: run_loop_def)

lemma run_loop_Cons: "run_loop s (w # ws) = run_loop (loop_body s w) ws"
  by (simp add: run_loop_def)

lemma pause_values_append: "pause_values (xs @ ys) = pause_values xs @ pause_values ys"
  by (induction xs rule: pause_values.induct) simp_all

lemma run_loop_log:
  "transcript_log (run_loop s ws) = transcript_log s @ blocks (prev_word s) (prev_end s) ws"
proof (induction ws arbitrary: s)
  case Nil
  show ?case by (simp add: run_loop_Nil)
next
  case (Cons w ws)
  show ?case
    by (simp add: run_loop_Cons Cons.IH loop_body_log loop_body_prev_word loop_body_prev_end)
qed

lemma run_loop_rep_count:
  "rep_count (run_loop s ws) =
     rep_count s + int (length (filter is_repetition (blocks (prev_word s) (prev_end s) ws)))"
proof (induction ws arbitrary: s)
  case Nil
  show ?case by (simp add: run_loop_Nil)
next
  case (Cons w ws)
  show ?case
    by (simp add: run_loop_Cons Cons.IH loop_body_rep_count loop_body_prev_word
          loop_body_prev_end)
qed

lemma run_loop_filler_count:
  "filler_count (run_loop s ws) =
     filler_count s + int (length (filter is_filler (blocks (prev_word s) (prev_end s) ws)))"
proof (induction ws arbitrary: s)
  case Nil
  show ?case by (simp add: run_loop_Nil)
next
  case (Cons w ws)
  show ?case
    by (simp add: run_loop_Cons Cons.IH loop_body_filler_count loop_body_prev_word
          loop_body_prev_end)
qed

lemma run_loop_pauses:
  "pauses (run_loop s ws) = pauses s @ pause_values (blocks (prev_word s) (prev_end s) ws)"
proof (induction ws arbitrary: s)
  case Nil
  show ?case by (simp add: run_loop_Nil)
next
  case (Cons w ws)
  show ?case
    by (simp add: run_loop_Cons Cons.IH loop_body_pauses loop_body_prev_word
          loop_body_prev_end pause_values_append)
qed

subsection \<open>The summary never fails\<close>

lemma get_duration_eq: "get_duration segs = Inr (duration_of segs)"
  by (simp add: get_duration_def getitem_last_def duration_of_def)

lemma get_speech_rate_eq: "get_speech_rate (int n) d = Inr (rate_of n d)"
  by (simp add: get_speech_rate_def truediv_def rate_of_def)

lemma get_avg_pause_eq: "get_avg_pause ps = Inr (mean ps)"
  by (simp add: get_avg_pause_def truediv_def mean_def)


lemma analyze_fluency_eq: "analyze_fluency segs = Inr (log_of segs, metrics_of segs)"
  by (simp add: analyze_fluency_def collect_words_eq get_duration_eq get_speech_rate_eq
        get_avg_pause_eq run_loop_log run_loop_rep_count run_loop_filler_count
        run_loop_pauses init_vars_def log_of_def metrics_of_def Let_def)

subsection \<open>The events of a word sequence\<close>

lemma annotations_no_plain: "filter is_plain (annotations pw pe w) = []"
  by (simp add: annotations_def split: option.splits)

lemma blocks_plain: "filter is_plain (blocks pw pe ws) = map (\<lambda>w. PlainWord (normalized w)) ws"
  by (induction ws arbitrary: pw pe) (simp_all add: annotations_no_plain)

lemma events_by_kind:
  "length es = length (filter is_plain es) + length (filter is_filler es)
     + length (filter is_repetition es) + length (filter is_pause es)"
proof (induction es)
  case Nil
  show ?case by simp
next
  case (Cons e es)
  then show ?case by (cases e) simp_all
qed

lemma blocks_expected:
  "blocks (map_option normalized p) (map_option w_end p) ws
     = concat (map2 word_block (p # map Some ws) ws)"
proof (induction ws arbitrary: p)
  case Nil
  show ?case by simp
next
  case (Cons w ws)
  have "blocks (Some (normalized w)) (Some (w_end w)) ws
          = concat (map2 word_block (Some w # map Some ws) ws)"
    using Cons.IH [of "Some w"] by simp
  then show ?case by (simp add: word_block_def)
qed

lemma log_of_expected: "log_of segs = expected_log (all_words segs)"
  using blocks_expected [of None "all_words segs"]
  by (simp add: log_of_def expected_log_def)

lemma annotations_repetitions:
  "length (filter is_repetition (annotations pw pe w))
     = (if pw = Some (normalized w) \<and> normalized w \<noteq> [] then 1 else 0)"
  by (simp add: annotations_def split: option.splits)

lemma annotations_pauses:
  "pause_values (annotations pw pe w)
     = (case pe of None \<Rightarrow> []
        | Some e \<Rightarrow> if start w - e > 7 / 10 then [start w - e] else [])"
  by (simp add: annotations_def pause_values_append split: option.splits)

lemma blocks_repetitions_after:
  "length (filter is_repetition (blocks (Some (normalized p)) pe ws))
     = length (filter repeats (zip (p # ws) ws))"
  by (induction ws arbitrary: p pe) (simp_all add: annotations_repetitions repeats_def)

lemma blocks_repetitions:
  "length (filter is_repetition (blocks None pe ws)) = length (filter repeats (adjacent ws))"
  by (cases ws) (simp_all add: adjacent_def annotations_repetitions blocks_repetitions_after)

lemma blocks_pauses_after:
  "pause_values (blocks pw (Some (w_end p)) ws)
     = map gap (filter long_gap (zip (p # ws) ws))"
  by (induction ws arbitrary: p pw)
     (simp_all add: annotations_pauses pause_values_append gap_def long_gap_def)

lemma blocks_pauses:
  "pause_values (blocks pw None ws) = map gap (filter long_gap (adjacent ws))"
  by (cases ws)
     (simp_all add: adjacent_def annotations_pauses pause_values_append blocks_pauses_after)

lemma sum_list_long_gaps: "0 \<le> sum_list (map gap (filter long_gap ps))"
  by (induction ps) (simp_all add: long_gap_def)

lemma mean_nonneg: "0 \<le> sum_list ps \<Longrightarrow> 0 \<le> mean ps"
  by (simp add: mean_def)

lemma rate_of_nonneg: "0 \<le> rate_of n d"
  by (simp add: rate_of_def)

subsection \<open>Lower case and white space\<close>

lemma isspace_not_upper: "isspace c \<Longrightarrow> \<not> is_upper c"
  by (auto simp: isspace_def is_upper_def Let_def)

lemma isspace_lower_char: "isspace c \<Longrightarrow> lower_char c = c"
  by (simp add: lower_char_def isspace_not_upper)

lemma lower_char_not_upper: "\<not> is_upper (lower_char c)"
proof (cases "is_upper c")
  case False
  then show ?thesis by (simp add: lower_char_def)
next
  case True
  then have "(of_char c :: nat) + 32 < 256"
    by (auto simp: is_upper_def Let_def)
  then have "(of_char (char_of ((of_char c :: nat) + 32)) :: nat) = of_char c + 32"
    by simp
  with True show ?thesis
    by (auto simp: lower_char_def is_upper_def Let_def)
qed

lemma lower_char_idem: "lower_char (lower_char c) = lower_char c"
  using lower_char_not_upper [of c] by (simp add: lower_char_def)

lemma lower_idem: "lower (lower s) = lower s"
  by (simp add: lower_def lower_char_idem)

lemma lower_spaces: "list_all isspace a \<Longrightarrow> lower a = a"
  by (induction a) (simp_all add: lower_def isspace_lower_char)

lemma lower_append: "lower (a @ b) = lower a @ lower b"
  by (simp add: lower_def)

lemma dropWhile_spaces: "list_all isspace a \<Longrightarrow> dropWhile isspace (a @ x) = dropWhile isspace x"
  by (induction a) simp_all

lemma dropWhile_all: "list_all isspace a \<Longrightarrow> dropWhile isspace a = []"
  by (induction a) simp_all

lemma strip_leading: "list_all isspace a \<Longrightarrow> strip (a @ x) = strip x"
  by (simp add: strip_def dropWhile_spaces)

lemma strip_trailing:
  assumes "list_all isspace b"
  shows "strip (x @ b) = strip x"
proof (cases "list_all isspace x")
  case True
  with assms have "list_all isspace (x @ b)" by simp
  then have xb: "dropWhile isspace (x @ b) = []" by (rule dropWhile_all)
  from True have x: "dropWhile isspace x = []" by (rule dropWhile_all)
  show ?thesis by (simp only: strip_def xb x)
next
  case False
  then obtain c where c: "c \<in> set x" "\<not> isspace c"
    by (auto simp: list_all_iff)
  then have "dropWhile isspace (x @ b) = dropWhile isspace x @ b"
    by (simp add: dropWhile_append1)
  moreover from assms have "list_all isspace (rev b)" by (simp add: list_all_iff)
  ultimately show ?thesis
    by (simp add: strip_def dropWhile_spaces)
qed

lemma strip_surrounded:
  "list_all isspace a \<Longrightarrow> list_all isspace b \<Longrightarrow> strip (a @ x @ b) = strip x"
  by (simp add: strip_leading strip_trailing)

lemma normalized_surrounded:
  assumes "list_all isspace a" and "list_all isspace b"
  shows "strip (lower (a @ x @ b)) = strip (lower x)"
  using assms by (simp add: lower_append lower_spaces strip_surrounded)

subsection \<open>The examples, evaluated\<close>

lemmas string_defs = strip_def lower_def lower_char_def is_upper_def isspace_def char_of_eq_iff

lemmas code_defs = analyze_fluency_def getitem_words_def run_loop_def loop_body_def loop_body_in_def real_arith_def
  init_vars_def filler_step_def repetition_step_def pause_step_in_def truthy_def FILLERS_def
  get_duration_def getitem_last_def get_speech_rate_def get_avg_pause_def truediv_def Let_def

lemma scenario_run:
  "analyze_fluency scenario =
     Inr ([FillerDetected ''um'', PlainWord ''um'', PauseDetected (9 / 10), PlainWord ''hello''],
          \<lparr>repetitions = 0, fillers = 1, avg_pause = 9 / 10, speech_rate = 4 / 3,
           total_words = 2\<rparr>)"
  by (simp add: scenario_def code_defs string_defs)

lemma the_the_the_run:
  "analyze_fluency the_the_the =
     Inr ([PlainWord ''the'', RepetitionDetected ''the'', PlainWord ''the'',
           RepetitionDetected ''the'', PlainWord ''the''],
          \<lparr>repetitions = 2, fillers = 0, avg_pause = 0, speech_rate = 30 / 11,
           total_words = 3\<rparr>)"
  by (simp add: the_the_the_def code_defs string_defs)

lemma ten_words_run:
  "analyze_fluency ten_words =
     Inr ([PlainWord ''a'', PauseDetected 1, PlainWord ''b'', PauseDetected 2, PlainWord ''c'',
           PlainWord ''d'', PlainWord ''e'', PlainWord ''f'', PlainWord ''g'', PlainWord ''h'',
           PlainWord ''i'', PlainWord ''j''],
          \<lparr>repetitions = 0, fillers = 0, avg_pause = 3 / 2, speech_rate = 2,
           total_words = 10\<rparr>)"
  by (simp add: ten_words_def code_defs string_defs)

lemma with_gaps_run:
  "analyze_fluency with_gaps =
     Inr ([FillerDetected ''um'', PlainWord ''um'', PauseDetected (9 / 10), PlainWord ''hello''],
          \<lparr>repetitions = 0, fillers = 1, avg_pause = 9 / 10, speech_rate = 1 / 2,
           total_words = 2\<rparr>)"
  by (simp add: with_gaps_def scenario_def code_defs string_defs)

subsection \<open>Segments without words\<close>

lemma segment_words_with_words: "segment_words (with_words seg) = segment_words seg"
  by (simp add: with_words_def segment_words_def)

lemma all_words_with_words: "all_words (map with_words segs) = all_words segs"
  by (induction segs) (simp_all add: all_words_def segment_words_with_words)

lemma all_words_has_words: "all_words (filter has_words segs) = all_words segs"
  by (induction segs) (auto simp: all_words_def has_words_def segment_words_def)

lemma duration_of_with_words: "duration_of (map with_words segs) = duration_of segs"
  by (simp add: duration_of_def last_map with_words_def)

lemma all_words_empty: "list_all (\<lambda>seg. segment_words seg = []) segs \<Longrightarrow> all_words segs = []"
  by (induction segs) (simp_all add: all_words_def)

subsection \<open>The events of each kind\<close>

lemma empty_not_filler: "[] \<notin> FILLERS"
  by (simp add: FILLERS_def)

lemma annotations_repetition_events:
  "filter is_repetition (annotations pw pe w)
     = (if pw = Some (normalized w) \<and> normalized w \<noteq> [] then [RepetitionDetected (normalized w)] else [])"
  by (simp add: annotations_def split: option.splits)

lemma annotations_filler_events:
  "filter is_filler (annotations pw pe w)
     = (if normalized w \<in> FILLERS then [FillerDetected (normalized w)] else [])"
  by (simp add: annotations_def split: option.splits)

lemma blocks_filler_events:
  "filter is_filler (blocks pw pe ws)
     = map (\<lambda>w. FillerDetected (normalized w)) (filter (\<lambda>w. normalized w \<in> FILLERS) ws)"
  by (induction ws arbitrary: pw pe) (simp_all add: annotations_filler_events)

subsection \<open>Characters from their codes\<close>

lemma char_eq_char_of: "(c = char_of n) = (take_bit 8 n = (of_char c :: nat))"
  using char_of_eq_iff [of n c] by auto

lemmas string_evals = string_defs char_eq_char_of

subsection \<open>Rounding to binary64\<close>

text \<open>
  What \<open>round64\<close> returns when it is finite is a multiple of the unit in the last place
  with at most 53 binary digits, and no such multiple is nearer to the rational rounded.
  Of two that are equally near it is the even one, as the two integers beyond
  \<open>2 ^ 53\<close> show.
\<close>

lemma bit_length_nonneg: "0 \<le> bit_length n"
proof (induction n rule: bit_length.induct)
  case (1 n)
  then show ?case
    by (cases "n \<le> 0") (simp_all add: bit_length.simps [of n])
qed

lemma bit_length_pos: "0 < n \<Longrightarrow> 1 \<le> bit_length n"
  using bit_length_nonneg [of "n div 2"] by (simp add: bit_length.simps [of n])

lemma bit_length_bounds:
  "0 < n \<Longrightarrow> 2 ^ nat (bit_length n - 1) \<le> n \<and> n < 2 ^ nat (bit_length n)"
proof (induction n rule: bit_length.induct)
  case (1 n)
  show ?case
  proof (cases "0 < n div 2")
    case False
    with "1.prems" have "n = 1" by linarith
    then show ?thesis
      by (simp add: bit_length.simps [of 1] bit_length.simps [of 0])
  next
    case True
    with "1.IH" "1.prems"
    have ih: "2 ^ nat (bit_length (n div 2) - 1) \<le> n div 2"
      "n div 2 < 2 ^ nat (bit_length (n div 2))"
      by simp_all
    from True have pos: "1 \<le> bit_length (n div 2)" by (rule bit_length_pos)
    from "1.prems" have bl: "bit_length n = 1 + bit_length (n div 2)"
      by (simp add: bit_length.simps [of n])
    from pos have e1: "nat (bit_length n - 1) = Suc (nat (bit_length (n div 2) - 1))"
      unfolding bl by simp
    from pos have e2: "nat (bit_length n) = Suc (nat (bit_length (n div 2)))"
      unfolding bl by simp
    have "2 * 2 ^ nat (bit_length (n div 2) - 1) \<le> 2 * (n div 2)"
      using ih(1) by simp
    also have "\<dots> \<le> n" by simp
    finally have lower: "2 ^ nat (bit_length n - 1) \<le> n"
      unfolding e1 by simp
    have "n < 2 * (n div 2) + 2" by linarith
    also have "\<dots> \<le> 2 * 2 ^ nat (bit_length (n div 2))"
      using ih(2) by simp
    finally have upper: "n < 2 ^ nat (bit_length n)"
      unfolding e2 by simp
    from lower upper show ?thesis by simp
  qed
qed

lemma bit_length_powi:
  assumes "0 < n"
  shows "(2::rat) powi (bit_length n - 1) \<le> of_int n" and "of_int n < (2::rat) powi bit_length n"
proof -
  from assms have pos: "1 \<le> bit_length n" by (rule bit_length_pos)
  from bit_length_bounds [OF assms]
  have l: "(2::int) ^ nat (bit_length n - 1) \<le> n" and u: "n < 2 ^ nat (bit_length n)"
    by simp_all
  from l have "(of_int (2 ^ nat (bit_length n - 1)) :: rat) \<le> of_int n"
    by (simp only: of_int_le_iff)
  with pos show "(2::rat) powi (bit_length n - 1) \<le> of_int n"
    by (simp add: power_int_def)
  from u have "(of_int n :: rat) < of_int (2 ^ nat (bit_length n))"
    by (simp only: of_int_less_iff)
  with pos show "of_int n < (2::rat) powi bit_length n"
    by (simp add: power_int_def)
qed

lemma exponent_of_bounds:
  assumes "x \<noteq> 0"
  shows "2 powi exponent_of x \<le> \<bar>x\<bar> \<and> \<bar>x\<bar> < 2 powi (exponent_of x + 1)"
proof -
  obtain p q where pq: "quotient_of \<bar>x\<bar> = (p, q)" by (cases "quotient_of \<bar>x\<bar>")
  then have q: "0 < q" by (rule quotient_of_denom_pos)
  from pq have x: "\<bar>x\<bar> = of_int p / of_int q" by (rule quotient_of_div)
  from assms have "0 < \<bar>x\<bar>" by simp
  with x q have p: "0 < p" by (simp add: zero_less_divide_iff)
  let ?d = "bit_length p - bit_length q"
  from q have qpos: "(0::rat) < of_int q" by simp
  have upper: "\<bar>x\<bar> < 2 powi (?d + 1)"
  proof -
    have "of_int p < (2::rat) powi bit_length p" using p by (rule bit_length_powi)
    moreover have "(2::rat) powi (bit_length q - 1) \<le> of_int q" using q by (rule bit_length_powi)
    ultimately have "of_int p * (2::rat) powi (bit_length q - 1) < 2 powi bit_length p * of_int q"
      using p qpos by (intro mult_less_le_imp_less) simp_all
    then have "of_int p / of_int q < (2::rat) powi bit_length p / 2 powi (bit_length q - 1)"
      using qpos by (simp add: field_simps)
    also have "\<dots> = 2 powi (?d + 1)"
      by (simp add: power_int_diff [symmetric] algebra_simps)
    finally show ?thesis by (simp only: x)
  qed
  have lower: "2 powi (?d - 1) \<le> \<bar>x\<bar>"
  proof -
    have "(2::rat) powi (bit_length p - 1) \<le> of_int p" using p by (rule bit_length_powi)
    moreover have "of_int q < (2::rat) powi bit_length q" using q by (rule bit_length_powi)
    ultimately have "(2::rat) powi (bit_length p - 1) * of_int q \<le> of_int p * 2 powi bit_length q"
      using p qpos by (intro mult_mono) simp_all
    then have "(2::rat) powi (bit_length p - 1) / 2 powi bit_length q \<le> of_int p / of_int q"
      using qpos by (simp add: field_simps)
    moreover have "(2::rat) powi (bit_length p - 1) / 2 powi bit_length q = 2 powi (?d - 1)"
      by (simp add: power_int_diff [symmetric] algebra_simps)
    ultimately show ?thesis by (simp only: x)
  qed
  show ?thesis
  proof (cases "2 powi ?d \<le> \<bar>x\<bar>")
    case True
    then have "exponent_of x = ?d" by (simp add: exponent_of_def pq)
    with True upper show ?thesis by simp
  next
    case False
    then have "exponent_of x = ?d - 1" by (simp add: exponent_of_def pq)
    with False lower show ?thesis by simp
  qed
qed

lemma nearest_of_two:
  fixes x :: rat
  assumes "of_int n \<le> x" and "x < of_int n + 1"
  shows "\<bar>of_int (if x - of_int n < 1 / 2 then n
        else if 1 / 2 < x - of_int n then n + 1 else if even n then n else n + 1) - x\<bar>
      \<le> 1 / 2"
  using assms by (auto simp: abs_if)

lemma round_half_even_nearest: "\<bar>of_int (round_half_even x) - x\<bar> \<le> 1 / 2"
proof -
  have "of_int \<lfloor>x\<rfloor> \<le> x" and "x < of_int \<lfloor>x\<rfloor> + 1"
    by linarith+
  then show ?thesis
    unfolding round_half_even_def Let_def by (rule nearest_of_two)
qed

lemma round64_nearest:
  assumes "round64 x = Finite y"
  shows "\<bar>y - x\<bar> \<le> 2 powi (max (exponent_of x) (- 1022) - 52) / 2"
    and "\<exists>n::int. y = of_int n * 2 powi (max (exponent_of x) (- 1022) - 52)"
proof -
  let ?k = "max (exponent_of x) (- 1022) - 52"
  let ?n = "round_half_even (\<bar>x\<bar> / 2 powi ?k)"
  have u: "(0::rat) < 2 powi ?k" by simp
  have near: "\<bar>of_int ?n * 2 powi ?k - \<bar>x\<bar>\<bar> \<le> 2 powi ?k / 2"
  proof -
    have half: "\<bar>of_int ?n - \<bar>x\<bar> / 2 powi ?k\<bar> \<le> 1 / 2"
      by (rule round_half_even_nearest)
    have "(of_int ?n - \<bar>x\<bar> / 2 powi ?k) * 2 powi ?k = of_int ?n * 2 powi ?k - \<bar>x\<bar>"
      using u by (simp add: left_diff_distrib)
    then have "\<bar>of_int ?n * 2 powi ?k - \<bar>x\<bar>\<bar>
        = \<bar>of_int ?n - \<bar>x\<bar> / 2 powi ?k\<bar> * \<bar>2 powi ?k\<bar>"
      by (simp only: abs_mult [symmetric])
    also have "\<dots> = \<bar>of_int ?n - \<bar>x\<bar> / 2 powi ?k\<bar> * 2 powi ?k"
      using u by (simp only: abs_of_pos)
    also have "\<dots> \<le> 1 / 2 * 2 powi ?k"
      using half u by (intro mult_right_mono) simp_all
    also have "\<dots> = 2 powi ?k / 2"
      by simp
    finally show ?thesis .
  qed
  show "\<bar>y - x\<bar> \<le> 2 powi ?k / 2"
  proof (cases "x = 0")
    case True
    with assms show ?thesis by (simp add: round64_def)
  next
    case False
    with assms have y: "y = (if x < 0 then - (of_int ?n * 2 powi ?k) else of_int ?n * 2 powi ?k)"
      by (simp add: round64_def Let_def split: if_splits)
    with near show ?thesis by (auto simp: abs_if split: if_splits)
  qed
  show "\<exists>n::int. y = of_int n * 2 powi ?k"
  proof (cases "x = 0")
    case True
    with assms have "y = of_int 0 * 2 powi ?k" by (simp add: round64_def)
    then show ?thesis by blast
  next
    case False
    with assms have y: "y = (if x < 0 then - (of_int ?n * 2 powi ?k) else of_int ?n * 2 powi ?k)"
      by (simp add: round64_def Let_def split: if_splits)
    show ?thesis
    proof (cases "x < 0")
      case True
      with y have "y = of_int (- ?n) * 2 powi ?k" by simp
      then show ?thesis by blast
    next
      case False
      with y have "y = of_int ?n * 2 powi ?k" by simp
      then show ?thesis by blast
    qed
  qed
qed

lemma round64_digits:
  assumes "round64 x = Finite y"
  shows "\<exists>n::int. \<bar>y\<bar> = of_int n * 2 powi (max (exponent_of x) (- 1022) - 52)
           \<and> 0 \<le> n \<and> n \<le> 2 ^ 53"
proof (cases "x = 0")
  case True
  with assms have "\<bar>y\<bar> = of_int 0 * 2 powi (max (exponent_of x) (- 1022) - 52)"
    by (simp add: round64_def)
  then show ?thesis by (intro exI [of _ 0]) simp
next
  case False
  define k where "k = max (exponent_of x) (- 1022) - 52"
  let ?q = "\<bar>x\<bar> / 2 powi k"
  let ?n = "round_half_even ?q"
  have u: "(0::rat) < 2 powi k" by simp
  have e: "exponent_of x + 1 \<le> k + 53" by (simp add: k_def)
  from False have "\<bar>x\<bar> < 2 powi (exponent_of x + 1)"
    using exponent_of_bounds [of x] by simp
  also from e have "\<dots> \<le> 2 powi (k + 53)"
    by (intro power_int_increasing) simp_all
  also have "\<dots> = 2 ^ 53 * 2 powi k"
    by (simp add: power_int_add)
  finally have below: "?q < 2 ^ 53"
    using u by (simp add: pos_divide_less_eq)
  have above: "0 \<le> ?q" using u by simp
  have near: "\<bar>of_int ?n - ?q\<bar> \<le> 1 / 2" by (rule round_half_even_nearest)
  from below above near
  have "(of_int (- 1) :: rat) < of_int ?n" and "(of_int ?n :: rat) < of_int (2 ^ 53 + 1)"
    by (simp_all only: of_int_minus of_int_1 of_int_add of_int_power of_int_numeral)
  then have "- 1 < ?n" and "?n < 2 ^ 53 + 1"
    by (simp_all only: of_int_less_iff)
  then have n: "0 \<le> ?n" "?n \<le> 2 ^ 53" by simp_all
  define m :: rat where "m = of_int ?n * 2 powi k"
  from n u have m: "0 \<le> m"
    unfolding m_def by (intro mult_nonneg_nonneg) simp_all
  from False assms have "y = (if x < 0 then - m else m)"
    unfolding m_def by (simp add: round64_def Let_def k_def split: if_splits)
  with m have "\<bar>y\<bar> = m"
    by (simp split: if_splits)
  then have "\<bar>y\<bar> = of_int ?n * 2 powi k"
    by (simp only: m_def)
  with n show ?thesis unfolding k_def by blast
qed

lemma round64_tie_down: "round64 9007199254740993 = Finite 9007199254740992"
  by code_simp

lemma round64_tie_up: "round64 9007199254740995 = Finite 9007199254740996"
  by code_simp

lemma round64_third: "round64 (- 1 / 3) = Finite (- 6004799503160661 / 18014398509481984)"
  by code_simp

subsection \<open>The pass in any arithmetic\<close>






lemma run_loop_real: "run_loop s ws = run_loop_in real_arith s ws"
proof -
  have "loop_body = loop_body_in real_arith"
    by (intro ext) (simp add: loop_body_def)
  then show ?thesis by (simp add: run_loop_def run_loop_in_def)
qed






lemma float_08_minus_01:
  "sub64 (round64 (8 / 10)) (round64 (1 / 10)) = Finite (6305039478318695 / 9007199254740992)"
  by code_simp







section \<open>The claims\<close>

text \<open>
  C1. For every list of segments the analysis returns a log and metrics. The log has as
  many events as there are input words, filler events, repetition events and pause events
  together. It is the sequence of the blocks of the input words in their order, the block
  of a word being its annotation events followed by its PlainWord event, and its PlainWord
  events are the input words in their order.
\<close>

theorem event_count_and_order:
  "\<exists>log m. analyze_fluency segs = Inr (log, m)
     \<and> length log = length (all_words segs) + length (filter is_filler log)
         + length (filter is_repetition log) + length (filter is_pause log)
     \<and> log = expected_log (all_words segs)
     \<and> filter is_plain log = map (\<lambda>w. PlainWord (normalized w)) (all_words segs)"
proof -
  have plain: "filter is_plain (log_of segs) = map (\<lambda>w. PlainWord (normalized w)) (all_words segs)"
    by (simp add: log_of_def blocks_plain)
  have "length (log_of segs) = length (filter is_plain (log_of segs))
          + length (filter is_filler (log_of segs))
          + length (filter is_repetition (log_of segs))
          + length (filter is_pause (log_of segs))"
    by (rule events_by_kind)
  then have count: "length (log_of segs) = length (all_words segs)
          + length (filter is_filler (log_of segs))
          + length (filter is_repetition (log_of segs))
          + length (filter is_pause (log_of segs))"
    by (simp only: plain length_map)
  from count plain show ?thesis
    by (simp only: analyze_fluency_eq log_of_expected [symmetric]) blast
qed

theorem event_count_and_order_witness:
  "\<exists>log m. analyze_fluency scenario = Inr (log, m)
     \<and> length log = length (all_words scenario) + length (filter is_filler log)
         + length (filter is_repetition log) + length (filter is_pause log)
     \<and> log = expected_log (all_words scenario)
     \<and> filter is_plain log = map (\<lambda>w. PlainWord (normalized w)) (all_words scenario)
     \<and> log = [FillerDetected ''um'', PlainWord ''um'', PauseDetected (9 / 10),
              PlainWord ''hello'']"
proof -
  from event_count_and_order [of scenario] obtain log m
    where run: "analyze_fluency scenario = Inr (log, m)"
      and count: "length log = length (all_words scenario) + length (filter is_filler log)
         + length (filter is_repetition log) + length (filter is_pause log)"
      and order: "log = expected_log (all_words scenario)"
      and plain: "filter is_plain log
         = map (\<lambda>w. PlainWord (normalized w)) (all_words scenario)"
    by blast
  from run have "log = [FillerDetected ''um'', PlainWord ''um'', PauseDetected (9 / 10),
              PlainWord ''hello'']"
    by (simp add: scenario_run)
  with run count order plain show ?thesis by blast
qed

text \<open>
  C2. For every list of segments the number of PlainWord events of the log is the
  metric \<open>total_words\<close>.
\<close>

theorem plain_words_equal_total:
  "\<exists>log m. analyze_fluency segs = Inr (log, m)
     \<and> int (length (filter is_plain log)) = total_words m"
  by (simp add: analyze_fluency_eq metrics_of_def log_of_def blocks_plain)

theorem plain_words_equal_total_witness:
  "\<exists>log m. analyze_fluency ten_words = Inr (log, m)
     \<and> int (length (filter is_plain log)) = total_words m \<and> total_words m = 10"
  using plain_words_equal_total [of ten_words] by (simp add: ten_words_run)

text \<open>
  C3. When no segment contributes a word, in particular when there is no segment, the
  analysis returns the empty log and metrics that are all zero; it does not fail.
\<close>

theorem empty_input_zero_metrics:
  "list_all (\<lambda>seg. segment_words seg = []) segs
     \<Longrightarrow> analyze_fluency segs = Inr ([], zero_metrics)"
  by (simp add: analyze_fluency_eq log_of_def metrics_of_def all_words_empty zero_metrics_def
        rate_of_def mean_def)

theorem empty_input_zero_metrics_witness:
  "list_all (\<lambda>seg. segment_words seg = []) wordless
     \<and> analyze_fluency wordless = Inr ([], zero_metrics)
     \<and> analyze_fluency [] = Inr ([], zero_metrics)"
  using empty_input_zero_metrics [of wordless] empty_input_zero_metrics [of "[]"]
  by (simp add: wordless_def segment_words_def)

text \<open>
  C4, as amended. A RepetitionDetected event is emitted for a word, and the repetition
  count incremented by one, exactly when the normalized text of the word before it is the
  same and is not empty; nothing but the word before is compared. So the repetition
  events of a run are as many as the pairs of neighbouring words with the same non-empty
  normalized text, and so is the metric \<open>repetitions\<close>. Three times "the" gives two.
\<close>

theorem repetition_detection:
  "(\<exists>log m. analyze_fluency segs = Inr (log, m)
      \<and> length (filter is_repetition log) = length (filter repeats (adjacent (all_words segs)))
      \<and> repetitions m = int (length (filter repeats (adjacent (all_words segs)))))
   \<and> filter is_repetition (transcript_log (loop_body s w))
       = filter is_repetition (transcript_log s)
         @ (if prev_word s = Some (normalized w) \<and> normalized w \<noteq> []
            then [RepetitionDetected (normalized w)] else [])
   \<and> rep_count (loop_body s w)
       = rep_count s + (if prev_word s = Some (normalized w) \<and> normalized w \<noteq> [] then 1 else 0)
   \<and> (\<exists>log m. analyze_fluency the_the_the = Inr (log, m)
          \<and> length (filter is_repetition log) = 2 \<and> repetitions m = 2)"
proof -
  have run: "\<exists>log m. analyze_fluency segs = Inr (log, m)
      \<and> length (filter is_repetition log) = length (filter repeats (adjacent (all_words segs)))
      \<and> repetitions m = int (length (filter repeats (adjacent (all_words segs))))"
    by (simp add: analyze_fluency_eq metrics_of_def log_of_def blocks_repetitions)
  have events: "filter is_repetition (transcript_log (loop_body s w))
       = filter is_repetition (transcript_log s)
         @ (if prev_word s = Some (normalized w) \<and> normalized w \<noteq> []
            then [RepetitionDetected (normalized w)] else [])"
    by (simp add: loop_body_log annotations_repetition_events)
  have count: "rep_count (loop_body s w)
       = rep_count s + (if prev_word s = Some (normalized w) \<and> normalized w \<noteq> [] then 1 else 0)"
    by (simp add: loop_body_rep_count annotations_repetitions)
  have three: "\<exists>log m. analyze_fluency the_the_the = Inr (log, m)
          \<and> length (filter is_repetition log) = 2 \<and> repetitions m = 2"
    by (simp add: the_the_the_run)
  from run events count three show ?thesis by (intro conjI)
qed

theorem repetition_detection_witness:
  "(\<exists>log m. analyze_fluency the_the_the = Inr (log, m)
      \<and> length (filter is_repetition log) = length (filter repeats (adjacent (all_words the_the_the)))
      \<and> repetitions m = int (length (filter repeats (adjacent (all_words the_the_the))))
      \<and> repetitions m = 2)
   \<and> rep_count (loop_body (loop_body init_vars blank_first) blank_second) = 0"
proof -
  note inst = repetition_detection [of the_the_the "loop_body init_vars blank_first" blank_second]
  from inst obtain log m
    where run: "analyze_fluency the_the_the = Inr (log, m)"
      and events: "length (filter is_repetition log)
         = length (filter repeats (adjacent (all_words the_the_the)))"
      and count: "repetitions m
         = int (length (filter repeats (adjacent (all_words the_the_the))))"
    by blast
  from run have two: "repetitions m = 2" by (auto simp: the_the_the_run)
  from inst have "rep_count (loop_body (loop_body init_vars blank_first) blank_second)
       = rep_count (loop_body init_vars blank_first)
         + (if prev_word (loop_body init_vars blank_first) = Some (normalized blank_second)
               \<and> normalized blank_second \<noteq> [] then 1 else 0)"
    by blast
  then have "rep_count (loop_body (loop_body init_vars blank_first) blank_second) = 0"
    by (simp add: normalized_def blank_first_def blank_second_def loop_body_def loop_body_in_def real_arith_def init_vars_def
          filler_step_def repetition_step_def pause_step_in_def truthy_def FILLERS_def Let_def
          string_defs)
  with run events count two show ?thesis by blast
qed

text \<open>
  C4, as stated, fails: after the word " " the previous word is set, to the empty string,
  and it equals the normalized text of the next word "", yet the pass emits no
  RepetitionDetected event for that word and leaves the repetition count at 0.
\<close>

theorem repetition_of_empty_counterexample:
  "prev_word (loop_body init_vars blank_first) = Some (strip (lower (word blank_second)))
   \<and> transcript_log (loop_body (loop_body init_vars blank_first) blank_second)
       = [PlainWord [], PlainWord []]
   \<and> rep_count (loop_body (loop_body init_vars blank_first) blank_second) = 0
   \<and> analyze_fluency blank_words
       = Inr ([PlainWord [], PlainWord []],
              \<lparr>repetitions = 0, fillers = 0, avg_pause = 0, speech_rate = 20 / 3,
               total_words = 2\<rparr>)"
  by (simp add: blank_words_def blank_first_def blank_second_def code_defs string_defs)

text \<open>
  C5. A word is classified as a filler exactly when its lower-cased and then stripped text
  is one of "um", "uh", "erm", "hmm", "you know" and "like": the filler events of a run are
  those of the words with such a text, in order, and the metric \<open>fillers\<close> counts them.
  White space around the text and the case of its letters do not change the text that is
  tested, and " Um " gives the same text as "um", a filler.
\<close>

theorem filler_detection_normalized:
  "(\<exists>log m. analyze_fluency segs = Inr (log, m)
      \<and> filter is_filler log
          = map (\<lambda>w. FillerDetected (strip (lower (word w))))
              (filter (\<lambda>w. strip (lower (word w)) \<in> FILLERS) (all_words segs))
      \<and> fillers m
          = int (length (filter (\<lambda>w. strip (lower (word w)) \<in> FILLERS) (all_words segs))))
   \<and> FILLERS = {''um'', ''uh'', ''erm'', ''hmm'', ''you know'', ''like''}
   \<and> (list_all isspace a \<and> list_all isspace b \<and> lower x = lower y
        \<longrightarrow> strip (lower (a @ x @ b)) = strip (lower y))
   \<and> strip (lower (lower x)) = strip (lower x)
   \<and> strip (lower '' Um '') = strip (lower ''um'')
   \<and> strip (lower ''um'') \<in> FILLERS"
proof -
  have run: "\<exists>log m. analyze_fluency segs = Inr (log, m)
      \<and> filter is_filler log
          = map (\<lambda>w. FillerDetected (strip (lower (word w))))
              (filter (\<lambda>w. strip (lower (word w)) \<in> FILLERS) (all_words segs))
      \<and> fillers m
          = int (length (filter (\<lambda>w. strip (lower (word w)) \<in> FILLERS) (all_words segs)))"
    using blocks_filler_events [of None None "all_words segs"]
    by (simp add: analyze_fluency_eq metrics_of_def log_of_def normalized_def)
  have fixed: "FILLERS = {''um'', ''uh'', ''erm'', ''hmm'', ''you know'', ''like''}"
    by (rule FILLERS_def)
  have around: "list_all isspace a \<and> list_all isspace b \<and> lower x = lower y
        \<longrightarrow> strip (lower (a @ x @ b)) = strip (lower y)"
    using normalized_surrounded [of a b x] by auto
  have twice: "strip (lower (lower x)) = strip (lower x)"
    by (simp add: lower_idem)
  have um: "strip (lower '' Um '') = strip (lower ''um'')"
    by (simp add: string_defs)
  have filler: "strip (lower ''um'') \<in> FILLERS"
    by (simp add: string_defs FILLERS_def)
  from run fixed around twice um filler show ?thesis by (intro conjI)
qed

theorem filler_detection_normalized_witness:
  "(\<exists>log m. analyze_fluency scenario = Inr (log, m)
      \<and> filter is_filler log = [FillerDetected ''um''] \<and> fillers m = 1)
   \<and> list_all isspace ''  '' \<and> list_all isspace '' '' \<and> lower ''Like'' = lower ''liKE''
   \<and> strip (lower (''  '' @ ''Like'' @ '' '')) = strip (lower ''liKE'')
   \<and> strip (lower ''liKE'') \<in> FILLERS"
proof -
  note inst = filler_detection_normalized [of scenario "''  ''" "'' ''" "''Like''" "''liKE''"]
  have hyp: "list_all isspace ''  '' \<and> list_all isspace '' '' \<and> lower ''Like'' = lower ''liKE''"
    by (simp add: string_evals)
  with inst have same: "strip (lower (''  '' @ ''Like'' @ '' '')) = strip (lower ''liKE'')"
    by blast
  have like: "strip (lower ''liKE'') \<in> FILLERS"
    by (simp add: string_defs FILLERS_def)
  from inst obtain log m
    where run: "analyze_fluency scenario = Inr (log, m)"
      and events: "filter is_filler log
          = map (\<lambda>w. FillerDetected (strip (lower (word w))))
              (filter (\<lambda>w. strip (lower (word w)) \<in> FILLERS) (all_words scenario))"
      and count: "fillers m
          = int (length (filter (\<lambda>w. strip (lower (word w)) \<in> FILLERS) (all_words scenario)))"
    by blast
  from run have "filter is_filler log = [FillerDetected ''um''] \<and> fillers m = 1"
    by (auto simp: scenario_run)
  with run hyp same like show ?thesis by blast
qed



text \<open>
  C7. The metric \<open>total_words\<close> is the number of input words. The duration is the end of
  the last segment, or 0 without segments. The metric \<open>speech_rate\<close> is the number of
  words divided by the duration when the duration is greater than 0, and 0 otherwise; the
  metric \<open>avg_pause\<close> is the mean of the pauses when there are any, and 0 otherwise.
  No division fails. 10 words over 5 seconds give the rate 2 and any number of words over
  0 seconds the rate 0; the pauses 1 and 2 give the mean 1.5 and no pauses the mean 0.
\<close>

theorem summary_metrics:
  "(\<exists>log m. analyze_fluency segs = Inr (log, m)
      \<and> total_words m = int (length (all_words segs))
      \<and> speech_rate m
          = (if (if segs = [] then 0 else seg_end (last segs)) > 0
             then real (length (all_words segs)) / (if segs = [] then 0 else seg_end (last segs))
             else 0)
      \<and> pause_values log = pauses (run_loop init_vars (all_words segs))
      \<and> avg_pause m
          = (if pause_values log = [] then 0
             else sum_list (pause_values log) / real (length (pause_values log))))
   \<and> get_duration segs = Inr (if segs = [] then 0 else seg_end (last segs))
   \<and> get_speech_rate 10 5 = Inr 2
   \<and> get_speech_rate n 0 = Inr 0
   \<and> get_avg_pause [1, 2] = Inr (3 / 2)
   \<and> get_avg_pause [] = Inr 0"
proof -
  have run: "\<exists>log m. analyze_fluency segs = Inr (log, m)
      \<and> total_words m = int (length (all_words segs))
      \<and> speech_rate m
          = (if (if segs = [] then 0 else seg_end (last segs)) > 0
             then real (length (all_words segs)) / (if segs = [] then 0 else seg_end (last segs))
             else 0)
      \<and> pause_values log = pauses (run_loop init_vars (all_words segs))
      \<and> avg_pause m
          = (if pause_values log = [] then 0
             else sum_list (pause_values log) / real (length (pause_values log)))"
    by (simp add: analyze_fluency_eq metrics_of_def log_of_def rate_of_def mean_def
          duration_of_def run_loop_pauses init_vars_def)
  have duration: "get_duration segs = Inr (if segs = [] then 0 else seg_end (last segs))"
    by (simp add: get_duration_eq duration_of_def)
  have rate: "get_speech_rate 10 5 = Inr 2"
    by (simp add: get_speech_rate_def truediv_def)
  have still: "get_speech_rate n 0 = Inr 0"
    by (simp add: get_speech_rate_def)
  have avg: "get_avg_pause [1, 2] = Inr (3 / 2)"
    by (simp add: get_avg_pause_def truediv_def)
  have none: "get_avg_pause [] = Inr 0"
    by (simp add: get_avg_pause_def)
  from run duration rate still avg none show ?thesis by (intro conjI)
qed

theorem summary_metrics_witness:
  "\<exists>log m. analyze_fluency ten_words = Inr (log, m)
     \<and> total_words m = int (length (all_words ten_words))
     \<and> total_words m = 10
     \<and> get_duration ten_words = Inr 5
     \<and> speech_rate m = 2
     \<and> pause_values log = [1, 2]
     \<and> avg_pause m = 3 / 2"
proof -
  from summary_metrics [of ten_words 10] obtain log m
    where run: "analyze_fluency ten_words = Inr (log, m)"
      and total: "total_words m = int (length (all_words ten_words))"
      and duration: "get_duration ten_words
          = Inr (if ten_words = [] then 0 else seg_end (last ten_words))"
    by blast
  from duration have five: "get_duration ten_words = Inr 5"
    by (simp add: ten_words_def)
  from run have "total_words m = 10 \<and> speech_rate m = 2 \<and> pause_values log = [1, 2]
      \<and> avg_pause m = 3 / 2"
    by (auto simp: ten_words_run)
  with run total five show ?thesis by blast
qed

text \<open>
  C8. For every list of segments each of the five metrics is at least 0.
\<close>

theorem metrics_non_negative:
  "\<exists>log m. analyze_fluency segs = Inr (log, m)
     \<and> 0 \<le> repetitions m \<and> 0 \<le> fillers m \<and> 0 \<le> avg_pause m \<and> 0 \<le> speech_rate m
     \<and> 0 \<le> total_words m"
proof -
  have "0 \<le> sum_list (pause_values (log_of segs))"
    by (simp add: log_of_def blocks_pauses sum_list_long_gaps)
  then have "0 \<le> mean (pause_values (log_of segs))"
    by (rule mean_nonneg)
  then show ?thesis
    by (simp add: analyze_fluency_eq metrics_of_def rate_of_nonneg)
qed

theorem metrics_non_negative_witness:
  "\<exists>log m. analyze_fluency scenario = Inr (log, m)
     \<and> 0 \<le> repetitions m \<and> 0 \<le> fillers m \<and> 0 \<le> avg_pause m \<and> 0 \<le> speech_rate m
     \<and> 0 \<le> total_words m
     \<and> avg_pause m = 9 / 10 \<and> speech_rate m = 4 / 3"
proof -
  from metrics_non_negative [of scenario] obtain log m
    where run: "analyze_fluency scenario = Inr (log, m)"
      and bounds: "0 \<le> repetitions m" "0 \<le> fillers m" "0 \<le> avg_pause m"
        "0 \<le> speech_rate m" "0 \<le> total_words m"
    by blast
  from run have "avg_pause m = 9 / 10 \<and> speech_rate m = 4 / 3"
    by (auto simp: scenario_run)
  with run bounds show ?thesis by blast
qed

text \<open>
  C9. A segment without the key "words" contributes no word and raises no error: the
  first loop skips it, the analysis returns a result on every list of segments, and the
  result is that of the same list with the empty list of words put into each such
  segment. The log and the metrics other than the speech rate are those of the list
  without such segments.
\<close>

theorem wordless_segments_contribute_nothing:
  "collect_words acc (\<lparr>words = None, seg_end = e\<rparr> # segs) = collect_words acc segs
   \<and> collect_words acc segs = Inr (acc @ all_words (filter has_words segs))
   \<and> analyze_fluency segs = analyze_fluency (map with_words segs)
   \<and> (\<exists>log m m'. analyze_fluency segs = Inr (log, m)
          \<and> analyze_fluency (filter has_words segs) = Inr (log, m')
          \<and> m = m'\<lparr>speech_rate := speech_rate m\<rparr>)"
proof -
  have skip: "collect_words acc (\<lparr>words = None, seg_end = e\<rparr> # segs) = collect_words acc segs"
    by simp
  have collect: "collect_words acc segs = Inr (acc @ all_words (filter has_words segs))"
    by (simp add: collect_words_eq all_words_has_words)
  have same: "analyze_fluency segs = analyze_fluency (map with_words segs)"
    by (simp add: analyze_fluency_eq log_of_def metrics_of_def all_words_with_words
          duration_of_with_words)
  have without: "\<exists>log m m'. analyze_fluency segs = Inr (log, m)
          \<and> analyze_fluency (filter has_words segs) = Inr (log, m')
          \<and> m = m'\<lparr>speech_rate := speech_rate m\<rparr>"
    by (simp add: analyze_fluency_eq log_of_def metrics_of_def all_words_has_words)
  from skip collect same without show ?thesis by (intro conjI)
qed

theorem wordless_segments_contribute_nothing_witness:
  "collect_words [] with_gaps = collect_words [] scenario
   \<and> analyze_fluency with_gaps = analyze_fluency (map with_words with_gaps)
   \<and> (\<exists>log m m'. analyze_fluency with_gaps = Inr (log, m)
          \<and> analyze_fluency scenario = Inr (log, m')
          \<and> m = m'\<lparr>speech_rate := speech_rate m\<rparr>
          \<and> speech_rate m = 1 / 2 \<and> speech_rate m' = 4 / 3)"
proof -
  note inst = wordless_segments_contribute_nothing [of "[]" 0 with_gaps]
  have scenario: "filter has_words with_gaps = scenario"
    by (simp add: with_gaps_def scenario_def has_words_def)
  from inst have "collect_words [] with_gaps = Inr ([] @ all_words (filter has_words with_gaps))"
    by blast
  moreover have "collect_words [] scenario = Inr ([] @ all_words scenario)"
    by (simp add: scenario_def all_words_def segment_words_def getitem_words_def)
  ultimately have collect: "collect_words [] with_gaps = collect_words [] scenario"
    by (simp only: scenario)
  from inst have same: "analyze_fluency with_gaps = analyze_fluency (map with_words with_gaps)"
    by blast
  from inst obtain log m m'
    where run: "analyze_fluency with_gaps = Inr (log, m)"
      and run': "analyze_fluency (filter has_words with_gaps) = Inr (log, m')"
      and eq: "m = m'\<lparr>speech_rate := speech_rate m\<rparr>"
    by blast
  from run' have run_scenario: "analyze_fluency scenario = Inr (log, m')"
    by (simp only: scenario)
  from run have half: "speech_rate m = 1 / 2" by (auto simp: with_gaps_run)
  from run_scenario have third: "speech_rate m' = 4 / 3" by (auto simp: scenario_run)
  from collect same run run_scenario eq half third show ?thesis by blast
qed

text \<open>
  C10. A word whose normalized text is empty triggers neither a RepetitionDetected nor a
  FillerDetected event and changes neither count, whatever the word before it was, also
  when the normalized text of that word is empty too.
\<close>

theorem empty_word_triggers_nothing:
  "strip (lower (word w)) = [] \<Longrightarrow>
     filter is_repetition (transcript_log (loop_body s w))
       = filter is_repetition (transcript_log s)
     \<and> rep_count (loop_body s w) = rep_count s
     \<and> filter is_filler (transcript_log (loop_body s w)) = filter is_filler (transcript_log s)
     \<and> filler_count (loop_body s w) = filler_count s"
  by (simp add: loop_body_log loop_body_rep_count loop_body_filler_count
        annotations_repetition_events annotations_filler_events normalized_def
        empty_not_filler)

theorem empty_word_triggers_nothing_witness:
  "strip (lower (word blank_second)) = []
   \<and> prev_word (loop_body init_vars blank_first) = Some []
   \<and> filter is_repetition (transcript_log (loop_body (loop_body init_vars blank_first) blank_second))
       = filter is_repetition (transcript_log (loop_body init_vars blank_first))
   \<and> rep_count (loop_body (loop_body init_vars blank_first) blank_second)
       = rep_count (loop_body init_vars blank_first)
   \<and> filter is_filler (transcript_log (loop_body (loop_body init_vars blank_first) blank_second))
       = filter is_filler (transcript_log (loop_body init_vars blank_first))
   \<and> filler_count (loop_body (loop_body init_vars blank_first) blank_second)
       = filler_count (loop_body init_vars blank_first)"
proof -
  have empty: "strip (lower (word blank_second)) = []"
    by (simp add: blank_second_def string_defs)
  have before: "prev_word (loop_body init_vars blank_first) = Some []"
    by (simp add: loop_body_prev_word normalized_def blank_first_def string_defs)
  from empty before
    empty_word_triggers_nothing [OF empty, of "loop_body init_vars blank_first"]
  show ?thesis by (intro conjI) blast+
qed

end
